theory Spec2Isabelle
  imports Complex_Main
begin

section \<open>Errors\<close>

text \<open>
  The exceptions the notebook's statements can raise (\<open>ValueError\<close> from \<open>range\<close> with a
  zero step and from scikit-learn's input validation, \<open>IndexError\<close> from indexing,
  \<open>NotFittedError\<close> from an unfitted scaler), together with two errors of the
  specification's taxonomy: \<open>InvalidParameter\<close>, which no statement of the notebook
  raises, and \<open>UnknownSubject\<close>, the failure the specification gives the part of the
  split that the notebook leaves open.
\<close>

datatype error = ValueError | IndexError | NotFittedError | InvalidParameter | UnknownSubject

section \<open>Python's range and slices\<close>

text \<open>\<open>range(start, stop, step)\<close> for a positive step: \<open>start, start+step, ...\<close> while below \<open>stop\<close>.\<close>

function range_up :: "int \<Rightarrow> int \<Rightarrow> int \<Rightarrow> int list" where
  "range_up i stop step =
     (if 0 < step \<and> i < stop then i # range_up (i + step) stop step else [])"
  by pat_completeness auto
termination
  by (relation "measure (\<lambda>(i, stop, step). nat (stop - i))") auto

declare range_up.simps [simp del]

text \<open>For a negative step: \<open>start, start+step, ...\<close> while above \<open>stop\<close>.\<close>

function range_down :: "int \<Rightarrow> int \<Rightarrow> int \<Rightarrow> int list" where
  "range_down i stop step =
     (if step < 0 \<and> stop < i then i # range_down (i + step) stop step else [])"
  by pat_completeness auto
termination
  by (relation "measure (\<lambda>(i, stop, step). nat (i - stop))") auto

declare range_down.simps [simp del]

text \<open>\<open>range\<close> raises \<open>ValueError\<close> when the step is zero.\<close>

definition py_range :: "int \<Rightarrow> int \<Rightarrow> int \<Rightarrow> error + int list" where
  "py_range start stop step =
     (if step = 0 then Inl ValueError
      else if 0 < step then Inr (range_up start stop step)
      else Inr (range_down start stop step))"

text \<open>
  A slice bound of \<open>xs[a:b]\<close> on a sequence of length \<open>n\<close>: a negative bound counts from
  the end, and every bound is clipped to \<open>0..n\<close>. Slicing never raises.
\<close>

definition slice_bound :: "nat \<Rightarrow> int \<Rightarrow> nat" where
  "slice_bound n i = (if i < 0 then nat (max 0 (i + int n)) else min (nat i) n)"

definition py_slice :: "'a list \<Rightarrow> int \<Rightarrow> int \<Rightarrow> 'a list" where
  "py_slice xs a b =
     (let lo = slice_bound (length xs) a; hi = slice_bound (length xs) b
      in take (hi - lo) (drop lo xs))"

section \<open>The windower\<close>

text \<open>
  The windows the extraction loop visits on a signal \<open>X\<close> (one row per sample):
  \<^verbatim>\<open>
  for ix in range(window_size, num_obs, stride):
      X_w = X[ix-window_size:ix,:]
  \<close>
\<close>

definition windower :: "real list list \<Rightarrow> int \<Rightarrow> int \<Rightarrow> error + real list list list" where
  "windower X window_size stride =
     (case py_range window_size (int (length X)) stride of
        Inl e \<Rightarrow> Inl e
      | Inr ixs \<Rightarrow> Inr (map (\<lambda>ix. py_slice X (ix - window_size) ix) ixs))"

section \<open>Label aggregation\<close>

text \<open>\<open>np.any\<close> on a one-dimensional array of numbers: true when some entry is not zero.\<close>

definition np_any :: "real list \<Rightarrow> bool" where
  "np_any ys = list_ex (\<lambda>v. v \<noteq> 0) ys"

text \<open>The label of the window that ends at \<open>ix\<close>: \<^verbatim>\<open>np.any(y[ix-window_size:ix])\<close>.\<close>

definition window_label :: "real list \<Rightarrow> int \<Rightarrow> int \<Rightarrow> bool" where
  "window_label y window_size ix = np_any (py_slice y (ix - window_size) ix)"

section \<open>The extraction loop\<close>

text \<open>The three lists the notebook appends to, in lockstep.\<close>

record dataset =
  features :: "real list list"
  labels :: "bool list"
  subjects :: "string list"

text \<open>
  A node of the store: its name and its data, one row per sample, three columns (two EEG
  channels and the seizure indicator).
\<close>

record node =
  v_name :: string
  node_data :: "(real \<times> real \<times> real) list"

text \<open>\<^verbatim>\<open>node._v_name.split("/")[0].split("_")[0]\<close>: the name up to its first \<open>/\<close>, then up to its first \<open>_\<close>.\<close>

definition subject_of :: "string \<Rightarrow> string" where
  "subject_of name =
     takeWhile (\<lambda>c. c \<noteq> CHR ''_'') (takeWhile (\<lambda>c. c \<noteq> CHR ''/'') name)"

text \<open>
  The body of the loop over the start indices. The notebook leaves the computation of
  the feature vector partly open (\<open>means\<close>, \<open>variances\<close> and \<open>feature_vector\<close> are
  exercises); the parameter \<open>fv\<close> stands for the statements that compute the feature
  vector from the window \<open>X_w\<close>, and an exception they raise ends the loop.
\<close>

fun window_loop ::
  "(real list list \<Rightarrow> error + real list) \<Rightarrow> real list list \<Rightarrow> real list \<Rightarrow> int \<Rightarrow> string
     \<Rightarrow> int list \<Rightarrow> dataset \<Rightarrow> error + dataset" where
  "window_loop fv X y window_size subject_id [] ds = Inr ds"
| "window_loop fv X y window_size subject_id (ix # ixs) ds =
     (case fv (py_slice X (ix - window_size) ix) of
        Inl e \<Rightarrow> Inl e
      | Inr feature_vector \<Rightarrow>
          window_loop fv X y window_size subject_id ixs
            (ds\<lparr>features := features ds @ [feature_vector],
                labels := labels ds @ [window_label y window_size ix],
                subjects := subjects ds @ [subject_id]\<rparr>))"

text \<open>One node: split the data into the channels \<open>X\<close> and the indicator \<open>y\<close>, then loop.\<close>

definition process_node ::
  "(real list list \<Rightarrow> error + real list) \<Rightarrow> int \<Rightarrow> int \<Rightarrow> node \<Rightarrow> dataset \<Rightarrow> error + dataset" where
  "process_node fv window_size stride nd ds =
     (let subject_id = subject_of (v_name nd);
          X = map (\<lambda>(c1, c2, s). [c1, c2]) (node_data nd);
          y = map (\<lambda>(c1, c2, s). s) (node_data nd);
          num_obs = int (length X)
      in case py_range window_size num_obs stride of
           Inl e \<Rightarrow> Inl e
         | Inr ixs \<Rightarrow> window_loop fv X y window_size subject_id ixs ds)"

text \<open>All nodes of the store, in the order the store yields them.\<close>

fun walk_nodes ::
  "(real list list \<Rightarrow> error + real list) \<Rightarrow> int \<Rightarrow> int \<Rightarrow> node list \<Rightarrow> dataset \<Rightarrow> error + dataset" where
  "walk_nodes fv window_size stride [] ds = Inr ds"
| "walk_nodes fv window_size stride (nd # nds) ds =
     (case process_node fv window_size stride nd ds of
        Inl e \<Rightarrow> Inl e
      | Inr ds' \<Rightarrow> walk_nodes fv window_size stride nds ds')"

text \<open>The notebook's constants.\<close>

definition sampling_rate :: int where "sampling_rate = 256"
definition window_size_seconds :: int where "window_size_seconds = 4"
definition stride_seconds :: int where "stride_seconds = 2"
definition window_size :: int where "window_size = window_size_seconds * sampling_rate"
definition stride :: int where "stride = stride_seconds * sampling_rate"

section \<open>Floating-point values\<close>

text \<open>
  A 64-bit float as NumPy's arithmetic sees it: a finite number, an infinity or NaN. An
  operation on finite operands whose exact result lies beyond the largest float gives an
  infinity (\<open>fl\<close>); the operations on infinities and NaN follow IEEE 754. Rounding and the
  sign of zero are not modelled.
\<close>

datatype npfloat = Finite real | PosInf | NegInf | NaN

definition max_float :: real where
  "max_float = (2 - 1 / 2 ^ 52) * 2 ^ 1023"

definition fl :: "real \<Rightarrow> npfloat" where
  "fl x = (if max_float < x then PosInf else if x < - max_float then NegInf else Finite x)"

fun np_add :: "npfloat \<Rightarrow> npfloat \<Rightarrow> npfloat" where
  "np_add (Finite a) (Finite b) = fl (a + b)"
| "np_add NaN v = NaN"
| "np_add v NaN = NaN"
| "np_add PosInf NegInf = NaN"
| "np_add NegInf PosInf = NaN"
| "np_add PosInf v = PosInf"
| "np_add v PosInf = PosInf"
| "np_add NegInf v = NegInf"
| "np_add v NegInf = NegInf"

fun np_multiply :: "npfloat \<Rightarrow> npfloat \<Rightarrow> npfloat" where
  "np_multiply (Finite a) (Finite b) = fl (a * b)"
| "np_multiply NaN v = NaN"
| "np_multiply v NaN = NaN"
| "np_multiply (Finite a) PosInf = (if a = 0 then NaN else if 0 < a then PosInf else NegInf)"
| "np_multiply (Finite a) NegInf = (if a = 0 then NaN else if 0 < a then NegInf else PosInf)"
| "np_multiply PosInf (Finite b) = (if b = 0 then NaN else if 0 < b then PosInf else NegInf)"
| "np_multiply NegInf (Finite b) = (if b = 0 then NaN else if 0 < b then NegInf else PosInf)"
| "np_multiply PosInf PosInf = PosInf"
| "np_multiply PosInf NegInf = NegInf"
| "np_multiply NegInf PosInf = NegInf"
| "np_multiply NegInf NegInf = PosInf"

text \<open>Dividing by zero does not raise: it gives an infinity, or NaN for \<open>0 / 0\<close>.\<close>

fun np_divide :: "npfloat \<Rightarrow> npfloat \<Rightarrow> npfloat" where
  "np_divide (Finite a) (Finite b) =
     (if b = 0 then (if a = 0 then NaN else if 0 < a then PosInf else NegInf)
      else fl (a / b))"
| "np_divide NaN v = NaN"
| "np_divide v NaN = NaN"
| "np_divide (Finite a) PosInf = Finite 0"
| "np_divide (Finite a) NegInf = Finite 0"
| "np_divide PosInf (Finite b) = (if 0 \<le> b then PosInf else NegInf)"
| "np_divide NegInf (Finite b) = (if 0 \<le> b then NegInf else PosInf)"
| "np_divide PosInf v = NaN"
| "np_divide NegInf v = NaN"

text \<open>\<open>np.sum\<close> along the first axis adds the rows one after the other, starting from 0.\<close>

definition np_sum :: "npfloat list \<Rightarrow> npfloat" where
  "np_sum vs = foldl np_add (Finite 0) vs"

text \<open>\<open>v >= 0\<close> on a float: false for NaN, true for the positive infinity.\<close>

fun np_ge_zero :: "npfloat \<Rightarrow> bool" where
  "np_ge_zero (Finite x) = (0 \<le> x)"
| "np_ge_zero PosInf = True"
| "np_ge_zero NegInf = False"
| "np_ge_zero NaN = False"

section \<open>Band relative power\<close>

text \<open>
  A two-dimensional array is a list of rows of equal length; the first axis (rows) is
  time for a window and frequency for a spectral density, the second axis is the channel.

  Indexing the rows of an array with a Boolean mask keeps the rows whose mask entry is
  true, in order; NumPy raises \<open>IndexError\<close> when the mask and the first axis differ in
  length.
\<close>

definition select_rows :: "'a list \<Rightarrow> bool list \<Rightarrow> 'a list" where
  "select_rows A msk = map fst (filter snd (zip A msk))"

definition mask_rows :: "'a list \<Rightarrow> bool list \<Rightarrow> error + 'a list" where
  "mask_rows A msk =
     (if length msk \<noteq> length A then Inl IndexError else Inr (select_rows A msk))"

text \<open>Column \<open>j\<close> of an array: \<open>A[:, j]\<close>.\<close>

definition column :: "'a list list \<Rightarrow> nat \<Rightarrow> 'a list" where
  "column A j = map (\<lambda>row. row ! j) A"

text \<open>
  The composite Simpson rule of \<open>scipy.integrate.simps\<close> for evenly spaced samples:
  \<^verbatim>\<open>np.sum(dx/3.0 * (y[slice0]+4*y[slice1]+y[slice2]), axis=axis)\<close>, where the three
  slices take every second sample from the first, second and third on. The spacing \<open>dx\<close>
  is a finite number, and so is a fraction of it.
\<close>

fun simps_terms :: "npfloat list \<Rightarrow> real \<Rightarrow> npfloat list" where
  "simps_terms (y0 # y1 # y2 # ys) dx =
     np_multiply (Finite (dx / 3)) (np_add (np_add y0 (np_multiply (Finite 4) y1)) y2)
       # simps_terms (y2 # ys) dx"
| "simps_terms ys dx = []"

definition basic_simps :: "npfloat list \<Rightarrow> real \<Rightarrow> npfloat" where
  "basic_simps y dx = np_sum (simps_terms y dx)"

text \<open>
  One column of at least one sample. For an odd number of samples the rule covers all
  of them. For an even number SciPy's default (\<open>even='avg'\<close>) averages two results:
  Simpson on all but the last sample plus a trapezoid on the last interval, and Simpson
  on all but the first sample plus a trapezoid on the first interval:
  \<^verbatim>\<open>
  val = 0.0
  val += 0.5*last_dx*(y[-1]+y[-2]);   result = _basic_simps(y, 0, N-3, x, dx, axis)
  val += 0.5*first_dx*(y[1]+y[0]);    result += _basic_simps(y, 1, N-2, x, dx, axis)
  val /= 2.0;  result /= 2.0;  result = result + val
  \<close>
\<close>

definition simps_column :: "npfloat list \<Rightarrow> real \<Rightarrow> npfloat" where
  "simps_column y dx =
     (if length y mod 2 = 0 then
        (let val_first =
               np_add (Finite 0)
                 (np_multiply (Finite (0.5 * dx)) (np_add (last y) (last (butlast y))));
             result_first = basic_simps (butlast y) dx;
             val_both =
               np_add val_first (np_multiply (Finite (0.5 * dx)) (np_add (y ! 1) (y ! 0)));
             result_both = np_add result_first (basic_simps (tl y) dx)
         in np_add (np_divide result_both (Finite 2)) (np_divide val_both (Finite 2)))
      else basic_simps y dx)"

text \<open>
  \<^verbatim>\<open>integrate.simps(A, dx=dx, axis=0)\<close>: one integral per channel. With no row at all
  (an even number of samples, namely none) reading the last sample raises \<open>IndexError\<close>.
\<close>

definition simps :: "npfloat list list \<Rightarrow> real \<Rightarrow> error + npfloat list" where
  "simps A dx =
     (if A = [] then Inl IndexError
      else Inr (map (\<lambda>j. simps_column (column A j) dx) [0..<length (hd A)]))"

definition bands :: "(real \<times> real) list" where
  "bands = [(0.5, 4), (4, 8), (8, 13), (13, 32), (32, 60)]"

text \<open>\<^verbatim>\<open>where = lambda lb, ub: np.logical_and(freqs >= lb, freqs < ub)\<close>\<close>

definition where_band :: "real list \<Rightarrow> real \<Rightarrow> real \<Rightarrow> bool list" where
  "where_band freqs lb ub = map (\<lambda>f. lb \<le> f \<and> f < ub) freqs"

text \<open>The list comprehension over the bands; the first exception ends it.\<close>

fun abs_power_of ::
  "real list \<Rightarrow> npfloat list list \<Rightarrow> real \<Rightarrow> (real \<times> real) list
     \<Rightarrow> error + npfloat list list" where
  "abs_power_of freqs psd fr_res [] = Inr []"
| "abs_power_of freqs psd fr_res ((lb, ub) # bs) =
     (case mask_rows psd (where_band freqs lb ub) of
        Inl e \<Rightarrow> Inl e
      | Inr sel \<Rightarrow>
          (case simps sel fr_res of
             Inl e \<Rightarrow> Inl e
           | Inr p \<Rightarrow>
               (case abs_power_of freqs psd fr_res bs of
                  Inl e \<Rightarrow> Inl e
                | Inr ps \<Rightarrow> Inr (p # ps))))"

text \<open>
  \<open>compute_band_relpower\<close>. Welch's estimate of the spectral density is SciPy's; it is
  the parameter \<open>welch\<close>, which returns the frequencies (finite numbers) and one row of
  densities per frequency, or raises. The guard compares the total power with zero, sets
  the band powers of such a channel to 0 and its total power to -1. The result is the
  band-major flattening of the five rows of relative powers.
\<close>

definition compute_band_relpower ::
  "(real list list \<Rightarrow> error + real list \<times> npfloat list list) \<Rightarrow> real list list
     \<Rightarrow> error + npfloat list" where
  "compute_band_relpower welch X =
     (case welch X of
        Inl e \<Rightarrow> Inl e
      | Inr (freqs, psd) \<Rightarrow>
          if length freqs < 2 then Inl IndexError
          else
            (let fr_res = freqs ! 1 - freqs ! 0 in
             case abs_power_of freqs psd fr_res bands of
               Inl e \<Rightarrow> Inl e
             | Inr abs_power \<Rightarrow>
                 (case simps psd fr_res of
                    Inl e \<Rightarrow> Inl e
                  | Inr total_power \<Rightarrow>
                      (let abs_power' =
                             map (\<lambda>row. map2 (\<lambda>a t. if t = Finite 0 then Finite 0 else a)
                                          row total_power)
                               abs_power;
                           total_power' =
                             map (\<lambda>t. if t = Finite 0 then Finite (- 1) else t) total_power
                       in Inr (concat (map (\<lambda>row. map2 np_divide row total_power')
                                         abs_power'))))))"

text \<open>The sum of the five relative powers of one channel.\<close>

definition channel_sum :: "npfloat list \<Rightarrow> nat \<Rightarrow> nat \<Rightarrow> npfloat" where
  "channel_sum r num_channels j =
     np_sum (map (\<lambda>b. r ! (b * num_channels + j)) [0..<length bands])"

text \<open>
  Concrete estimates for use in examples. The frequencies are those \<open>signal.welch\<close>
  returns at \<open>fs = 256\<close> with its default segment length of 256 samples: 0 to 128 Hz in
  steps of 1 Hz.
\<close>

definition welch_freqs :: "real list" where
  "welch_freqs = 0 # 1 # map real [2..<129]"

text \<open>
  The density of a tone at 2 Hz seen through the Hann window (its power spread over 1, 2
  and 3 Hz in the ratio 1 : 4 : 1) in the first channel; the second channel is flat.
\<close>

definition tone_psd :: "npfloat list list" where
  "tone_psd =
     [[Finite 0, Finite 0], [Finite (1 / 4), Finite 0], [Finite 1, Finite 0],
      [Finite (1 / 4), Finite 0]] @ replicate 125 [Finite 0, Finite 0]"

definition tone_welch :: "real list list \<Rightarrow> error + real list \<times> npfloat list list" where
  "tone_welch X = Inr (welch_freqs, tone_psd)"

text \<open>
  The estimate for a constant signal of value 0.1 in both channels. Welch's method
  removes the mean of each segment; in floating point the mean of 256 samples of 0.1 is
  not exactly 0.1, and a small constant residual is left. Through the Hann window its
  density is \<open>2 * a\<close> at 0 Hz and \<open>a\<close> at 1 Hz, for a small positive \<open>a\<close> whose size does
  not matter here.
\<close>

definition residual :: real where
  "residual = 1 / 10 ^ 34"

definition constant_window :: "real list list" where
  "constant_window = replicate 1024 [1 / 10, 1 / 10]"

definition constant_welch :: "real list list \<Rightarrow> error + real list \<times> npfloat list list" where
  "constant_welch X =
     Inr (welch_freqs,
          [[Finite (2 * residual), Finite (2 * residual)], [Finite residual, Finite residual]]
            @ replicate 127 [Finite 0, Finite 0])"

text \<open>
  A density at the largest float in the first channel, at every frequency: the integrals
  overflow.
\<close>

definition huge_welch :: "real list list \<Rightarrow> error + real list \<times> npfloat list list" where
  "huge_welch X = Inr (welch_freqs, replicate 129 [Finite max_float, Finite 0])"

section \<open>Train and test split\<close>

text \<open>The held-out subject of the notebook.\<close>

definition test_subject :: string where
  "test_subject = ''chb01''"

text \<open>\<^verbatim>\<open>is_test_set = (subjects == "chb01")\<close>, for any test subject.\<close>

definition is_test_set_of :: "string list \<Rightarrow> string \<Rightarrow> bool list" where
  "is_test_set_of subject_ids test_subject_id = map (\<lambda>s. s = test_subject_id) subject_ids"

text \<open>
  Modelled from the spec: the notebook leaves \<open>X_test\<close> and \<open>y_test\<close> open (\<open>???\<close>, with
  the instruction to "use the \<open>is_test_set\<close> variable to extract the rows of \<open>X\<close>
  corresponding to the test subject"). Section 4.4 of the specification gives the missing
  part: the test set is all rows whose subject is the test subject, in row order, and the
  split fails with \<open>UnknownSubject\<close> if the test subject matches no row.
\<close>

definition test_rows :: "'a list \<Rightarrow> bool list \<Rightarrow> error + 'a list" where
  "test_rows A is_test_set =
     (if True \<notin> set is_test_set then Inl UnknownSubject else mask_rows A is_test_set)"

text \<open>
  The cell: \<open>is_test_set\<close>, \<open>X_train\<close> and \<open>y_train\<close> are the notebook's statements,
  \<open>X_test\<close> and \<open>y_test\<close> the missing ones. The subject is a parameter; the notebook
  fixes it to \<open>test_subject\<close>.
\<close>

definition train_test_split ::
  "real list list \<Rightarrow> bool list \<Rightarrow> string list \<Rightarrow> string
     \<Rightarrow> error + (real list list \<times> bool list \<times> real list list \<times> bool list)" where
  "train_test_split X y subject_ids test_subject_id =
     (let is_test_set = is_test_set_of subject_ids test_subject_id in
      case mask_rows X (map Not is_test_set) of
        Inl e \<Rightarrow> Inl e
      | Inr X_train \<Rightarrow>
          (case mask_rows y (map Not is_test_set) of
             Inl e \<Rightarrow> Inl e
           | Inr y_train \<Rightarrow>
               (case test_rows X is_test_set of
                  Inl e \<Rightarrow> Inl e
                | Inr X_test \<Rightarrow>
                    (case test_rows y is_test_set of
                       Inl e \<Rightarrow> Inl e
                     | Inr y_test \<Rightarrow> Inr (X_train, y_train, X_test, y_test)))))"

section \<open>Standardisation\<close>

text \<open>
  scikit-learn's \<open>StandardScaler\<close>. The object holds the fitted statistics (its
  attributes \<open>mean_\<close> and \<open>scale_\<close>), absent until \<open>fit\<close> has run.
\<close>

record standard_scaler =
  fitted_mean :: "real list option"
  fitted_scale :: "real list option"

definition StandardScaler :: standard_scaler where
  "StandardScaler = \<lparr>fitted_mean = None, fitted_scale = None\<rparr>"

text \<open>Mean and (population) standard deviation of one column.\<close>

definition column_mean :: "real list \<Rightarrow> real" where
  "column_mean xs = sum_list xs / real (length xs)"

definition column_std :: "real list \<Rightarrow> real" where
  "column_std xs = sqrt (sum_list (map (\<lambda>x. (x - column_mean xs)\<^sup>2) xs) / real (length xs))"

text \<open>A feature that is constant in the fitted data is scaled by 1.\<close>

definition handle_zeros_in_scale :: "real \<Rightarrow> real" where
  "handle_zeros_in_scale s = (if s = 0 then 1 else s)"

definition column_means :: "real list list \<Rightarrow> real list" where
  "column_means X = map (\<lambda>j. column_mean (column X j)) [0..<length (hd X)]"

definition column_scales :: "real list list \<Rightarrow> real list" where
  "column_scales X =
     map (\<lambda>j. handle_zeros_in_scale (column_std (column X j))) [0..<length (hd X)]"

text \<open>
  \<open>fit\<close> stores the statistics of its argument; the input validation rejects an array
  with no sample or no feature with \<open>ValueError\<close>.
\<close>

definition fit :: "standard_scaler \<Rightarrow> real list list \<Rightarrow> error + standard_scaler" where
  "fit S X =
     (if X = [] \<or> hd X = [] then Inl ValueError
      else Inr (S\<lparr>fitted_mean := Some (column_means X),
                   fitted_scale := Some (column_scales X)\<rparr>))"

text \<open>\<open>X -= mean_; X /= scale_\<close>, row by row.\<close>

definition scale_rows :: "real list \<Rightarrow> real list \<Rightarrow> real list list \<Rightarrow> real list list" where
  "scale_rows mu sigma X = map (\<lambda>row. map2 (/) (map2 (-) row mu) sigma) X"

text \<open>
  \<open>transform\<close> uses the stored statistics. It raises \<open>NotFittedError\<close> on a scaler that
  was not fitted and \<open>ValueError\<close> on an array with no sample, no feature or another
  number of features than the fitted one.
\<close>

definition transform :: "standard_scaler \<Rightarrow> real list list \<Rightarrow> error + real list list" where
  "transform S X =
     (case (fitted_mean S, fitted_scale S) of
        (Some mu, Some sigma) \<Rightarrow>
          if X = [] \<or> hd X = [] then Inl ValueError
          else if length (hd X) \<noteq> length mu then Inl ValueError
          else Inr (scale_rows mu sigma X)
      | _ \<Rightarrow> Inl NotFittedError)"

definition fit_transform ::
  "standard_scaler \<Rightarrow> real list list \<Rightarrow> error + standard_scaler \<times> real list list" where
  "fit_transform S X =
     (case fit S X of
        Inl e \<Rightarrow> Inl e
      | Inr S' \<Rightarrow> (case transform S' X of Inl e \<Rightarrow> Inl e | Inr X' \<Rightarrow> Inr (S', X')))"

text \<open>
  The cell of the notebook:
  \<^verbatim>\<open>
  S = StandardScaler()
  X_train = S.fit_transform(X_train)
  X_test = S.transform(X_test)
  \<close>
  The result is the scaler after the cell and the two transformed arrays.
\<close>

definition standardize ::
  "real list list \<Rightarrow> real list list
     \<Rightarrow> error + standard_scaler \<times> real list list \<times> real list list" where
  "standardize X_train X_test =
     (let S = StandardScaler in
      case fit_transform S X_train of
        Inl e \<Rightarrow> Inl e
      | Inr (S', X_train') \<Rightarrow>
          (case transform S' X_test of
             Inl e \<Rightarrow> Inl e
           | Inr X_test' \<Rightarrow> Inr (S', X_train', X_test')))"

section \<open>Properties of range and slices\<close>

lemma range_up_closed_form:
  "0 < step \<Longrightarrow>
   range_up i stop step =
     map (\<lambda>k. i + int k * step) [0..<nat ((stop - i - 1) div step + 1)]"
proof (induction i stop step rule: range_up.induct)
  case (1 i stop step)
  show ?case
  proof (cases "i < stop")
    case False
    with "1.prems" have "(stop - i - 1) div step < 0"
      by (simp add: div_neg_pos_less0)
    then have "nat ((stop - i - 1) div step + 1) = 0" by simp
    with False show ?thesis by (simp add: range_up.simps [of i])
  next
    case True
    with "1.prems" have ih: "range_up (i + step) stop step =
        map (\<lambda>k. i + step + int k * step) [0..<nat ((stop - (i + step) - 1) div step + 1)]"
      using "1.IH" by simp
    have d: "(stop - (i + step) - 1) div step + 1 = (stop - i - 1) div step"
    proof -
      have "stop - i - 1 = (stop - (i + step) - 1) + 1 * step" by simp
      then have "(stop - i - 1) div step = (stop - (i + step) - 1) div step + 1"
        using "1.prems" by (metis div_add_self2 less_irrefl mult_1)
      then show ?thesis by simp
    qed
    have nn: "0 \<le> (stop - i - 1) div step"
      using True "1.prems" by (simp add: pos_imp_zdiv_nonneg_iff)
    then have s: "nat ((stop - i - 1) div step + 1) = Suc (nat ((stop - i - 1) div step))"
      by simp
    have "map (\<lambda>k. i + int k * step) [0..<Suc (nat ((stop - i - 1) div step))] =
          i # map (\<lambda>k. i + step + int k * step) [0..<nat ((stop - i - 1) div step)]"
      by (simp add: upt_conv_Cons map_Suc_upt [symmetric] algebra_simps del: upt_Suc)
    with True "1.prems" ih d s show ?thesis
      by (simp add: range_up.simps [of i])
  qed
qed


lemma le_div_iff_int:
  fixes k x s :: int
  assumes "0 < s"
  shows "(k \<le> x div s) = (k * s \<le> x)"
proof
  assume "k \<le> x div s"
  then have "k * s \<le> (x div s) * s" using assms by (simp add: mult_right_mono)
  also have "\<dots> \<le> x"
    using assms by (metis mult.commute pos_mod_sign add_increasing2 mult_div_mod_eq order_refl)
  finally show "k * s \<le> x" .
next
  assume "k * s \<le> x"
  then have "(k * s) div s \<le> x div s" using assms by (rule zdiv_mono1)
  then show "k \<le> x div s" using assms by simp
qed

lemma range_up_count_iff:
  assumes "0 < step"
  shows "(k < nat ((stop - i - 1) div step + 1)) = (i + int k * step < stop)"
proof -
  have "(k < nat ((stop - i - 1) div step + 1)) = (int k \<le> (stop - i - 1) div step)"
    by linarith
  also have "\<dots> = (int k * step \<le> stop - i - 1)"
    using assms by (rule le_div_iff_int)
  also have "\<dots> = (i + int k * step < stop)" by linarith
  finally show ?thesis .
qed

lemma range_up_bounds:
  assumes "0 < step" "ix \<in> set (range_up i stop step)"
  shows "i \<le> ix \<and> ix < stop"
proof -
  from assms obtain k where k: "k < nat ((stop - i - 1) div step + 1)" "ix = i + int k * step"
    by (auto simp: range_up_closed_form)
  from k(1) assms(1) have "i + int k * step < stop" by (simp add: range_up_count_iff)
  moreover have "0 \<le> int k * step" using assms(1) by simp
  ultimately show ?thesis using k(2) by simp
qed

lemma py_slice_window:
  assumes "0 \<le> w" "w \<le> ix" "ix \<le> int (length xs)"
  shows "py_slice xs (ix - w) ix = take (nat w) (drop (nat (ix - w)) xs)"
    and "length (py_slice xs (ix - w) ix) = nat w"
proof -
  have lo: "slice_bound (length xs) (ix - w) = nat (ix - w)"
    using assms by (simp add: slice_bound_def)
  have hi: "slice_bound (length xs) ix = nat ix"
    using assms by (simp add: slice_bound_def)
  have "nat ix - nat (ix - w) = nat w" using assms by linarith
  with lo hi show "py_slice xs (ix - w) ix = take (nat w) (drop (nat (ix - w)) xs)"
    by (simp add: py_slice_def)
  moreover have "nat w \<le> length xs - nat (ix - w)" using assms by linarith
  ultimately show "length (py_slice xs (ix - w) ix) = nat w" by simp
qed

lemma py_slice_kth_window:
  assumes "0 \<le> w" "0 < step" "w + int k * step \<le> int (length xs)"
  shows "py_slice xs (w + int k * step - w) (w + int k * step)
           = take (nat w) (drop (k * nat step) xs)"
proof -
  have "w \<le> w + int k * step" using assms(2) by simp
  from py_slice_window(1) [OF assms(1) this assms(3)]
  have "py_slice xs (w + int k * step - w) (w + int k * step)
          = take (nat w) (drop (nat (w + int k * step - w)) xs)" .
  moreover have "nat (w + int k * step - w) = k * nat step"
    using assms(2) by (simp add: nat_mult_distrib)
  ultimately show ?thesis by simp
qed



lemma range_up_empty_iff: "0 < step \<Longrightarrow> (range_up i stop step = []) = (stop \<le> i)"
  by (subst range_up.simps) auto

lemma np_any_iff: "np_any ys = (\<exists>v\<in>set ys. v \<noteq> 0)"
  by (simp add: np_any_def list_ex_iff)

lemma np_any_foldr: "np_any ys = foldr (\<lambda>v b. v \<noteq> 0 \<or> b) ys False"
  by (induction ys) (simp_all add: np_any_def)

lemma set_take_drop_nth:
  assumes "m + n \<le> length xs"
  shows "(\<exists>v\<in>set (take n (drop m xs)). P v) = (\<exists>t. m \<le> t \<and> t < m + n \<and> P (xs ! t))"
proof
  assume "\<exists>v\<in>set (take n (drop m xs)). P v"
  then obtain i where i: "i < length (take n (drop m xs))" "P (take n (drop m xs) ! i)"
    by (auto simp: in_set_conv_nth)
  from i(1) assms have "i < n" by simp
  with i(2) assms have "P (xs ! (m + i))" by simp
  with \<open>i < n\<close> show "\<exists>t. m \<le> t \<and> t < m + n \<and> P (xs ! t)"
    by (intro exI [of _ "m + i"]) simp
next
  assume "\<exists>t. m \<le> t \<and> t < m + n \<and> P (xs ! t)"
  then obtain t where t: "m \<le> t" "t < m + n" "P (xs ! t)" by blast
  let ?i = "t - m"
  have "?i < length (take n (drop m xs))" using t assms by simp
  moreover have "take n (drop m xs) ! ?i = xs ! t" using t assms by simp
  ultimately show "\<exists>v\<in>set (take n (drop m xs)). P v"
    using t(3) by (metis nth_mem)
qed

lemma window_label_nth:
  assumes "0 \<le> w" "w \<le> ix" "ix \<le> int (length y)"
  shows "window_label y w ix = (\<exists>t. nat (ix - w) \<le> t \<and> t < nat (ix - w) + nat w \<and> y ! t \<noteq> 0)"
proof -
  have "nat (ix - w) + nat w \<le> length y" using assms by linarith
  from set_take_drop_nth [OF this, of "\<lambda>v. v \<noteq> 0"] show ?thesis
    unfolding window_label_def np_any_iff py_slice_window(1) [OF assms] .
qed

lemma window_loop_total:
  assumes "\<forall>ix\<in>set ixs. \<exists>f. fv (py_slice X (ix - w) ix) = Inr f"
  shows "\<exists>ds'. window_loop fv X y w sid ixs ds = Inr ds'
           \<and> length (features ds') = length (features ds) + length ixs
           \<and> labels ds' = labels ds @ map (window_label y w) ixs
           \<and> subjects ds' = subjects ds @ replicate (length ixs) sid"
  using assms
proof (induction ixs arbitrary: ds)
  case Nil
  show ?case by simp
next
  case (Cons ix ixs)
  from Cons.prems obtain f where f: "fv (py_slice X (ix - w) ix) = Inr f" by auto
  let ?ds = "ds\<lparr>features := features ds @ [f], labels := labels ds @ [window_label y w ix],
                subjects := subjects ds @ [sid]\<rparr>"
  from Cons.prems have "\<forall>ix\<in>set ixs. \<exists>f. fv (py_slice X (ix - w) ix) = Inr f" by simp
  from Cons.IH [OF this, of ?ds] obtain ds' where
    "window_loop fv X y w sid ixs ?ds = Inr ds'"
    "length (features ds') = length (features ?ds) + length ixs"
    "labels ds' = labels ?ds @ map (window_label y w) ixs"
    "subjects ds' = subjects ?ds @ replicate (length ixs) sid"
    by blast
  with f show ?case by simp
qed

lemma count_when_divisible:
  fixes n w s :: int
  assumes "0 < s" "w \<le> n" "s dvd (n - w)"
  shows "max 0 ((n - w - 1) div s + 1) = (n - w) div s"
proof -
  from assms(3) obtain q where q: "n - w = s * q" by (auto simp: dvd_def)
  have e1: "n - w - 1 = (s - 1) + (q - 1) * s" using q by (simp add: algebra_simps)
  have e2: "((s - 1) + (q - 1) * s) div s = (q - 1) + (s - 1) div s"
    using assms(1) div_mult_self1 [of s "s - 1" "q - 1"] by simp
  have e3: "(s - 1) div s = 0" using assms(1) by (simp add: div_pos_pos_trivial)
  have l: "(n - w - 1) div s = q - 1" by (simp only: e1 e2 e3 add_0_right)
  have r: "(n - w) div s = q" using assms(1) by (simp add: q)
  have "0 \<le> q"
  proof -
    have "0 \<le> s * q" using q assms(2) by simp
    with assms(1) show ?thesis by (simp add: zero_le_mult_iff)
  qed
  then show ?thesis by (simp add: l r)
qed


lemma process_node_total:
  assumes "0 \<le> w" and "0 < s"
    and "\<forall>k. w + int k * s < int (length (node_data nd))
           \<longrightarrow> (\<exists>f. fv (take (nat w) (drop (k * nat s)
                            (map (\<lambda>(c1, c2, i). [c1, c2]) (node_data nd)))) = Inr f)"
  shows "\<exists>ds'. process_node fv w s nd ds = Inr ds'
     \<and> length (features ds') = length (features ds)
           + nat (max 0 ((int (length (node_data nd)) - w - 1) div s + 1))
     \<and> labels ds' = labels ds @ map (\<lambda>k. window_label (map (\<lambda>(c1, c2, i). i) (node_data nd)) w (w + int k * s))
           [0..<nat (max 0 ((int (length (node_data nd)) - w - 1) div s + 1))]
     \<and> subjects ds' = subjects ds
           @ replicate (nat (max 0 ((int (length (node_data nd)) - w - 1) div s + 1)))
               (subject_of (v_name nd))"
proof -
  let ?n = "int (length (node_data nd))"
  let ?c = "nat (max 0 ((?n - w - 1) div s + 1))"
  let ?ixs = "map (\<lambda>k. w + int k * s) [0..<?c]"
  let ?X = "map (\<lambda>(c1, c2, i). [c1, c2]) (node_data nd)"
  let ?y = "map (\<lambda>(c1, c2, i). i) (node_data nd)"
  have c: "?c = nat ((?n - w - 1) div s + 1)" by simp
  have ixs: "range_up w ?n s = ?ixs"
    using assms(2) unfolding c by (rule range_up_closed_form)
  have r: "py_range w ?n s = Inr ?ixs"
    using assms(2) by (simp add: py_range_def ixs)
  have "\<exists>f. fv (py_slice ?X (ix - w) ix) = Inr f" if "ix \<in> set ?ixs" for ix
  proof -
    from that have "\<exists>k\<in>set [0..<?c]. ix = w + int k * s"
      by (simp only: set_map image_iff)
    then obtain k where "k \<in> set [0..<?c]" and k2: "ix = w + int k * s" by blast
    then have k1: "k < ?c" by simp
    from k1 have lt: "w + int k * s < ?n"
      unfolding c using range_up_count_iff [OF assms(2), of k ?n w] by simp
    then have "w + int k * s \<le> int (length ?X)" by simp
    from py_slice_kth_window [OF assms(1,2) this]
    have "py_slice ?X (ix - w) ix = take (nat w) (drop (k * nat s) ?X)"
      by (simp only: k2)
    with assms(3) lt show ?thesis by simp
  qed
  then have "\<forall>ix\<in>set ?ixs. \<exists>f. fv (py_slice ?X (ix - w) ix) = Inr f" by blast
  from window_loop_total [OF this, of ?y "subject_of (v_name nd)" ds]
  obtain ds' where
    "window_loop fv ?X ?y w (subject_of (v_name nd)) ?ixs ds = Inr ds'"
    "length (features ds') = length (features ds) + length ?ixs"
    "labels ds' = labels ds @ map (window_label ?y w) ?ixs"
    "subjects ds' = subjects ds @ replicate (length ?ixs) (subject_of (v_name nd))"
    by blast
  then show ?thesis
    unfolding process_node_def Let_def by (simp add: r comp_def)
qed

section \<open>Properties of the float operations\<close>

lemma max_float_large: "1024 \<le> max_float"
proof -
  have "(2::real) ^ 10 \<le> 2 ^ 1023" by (rule power_increasing) simp_all
  moreover have "(1::real) \<le> 2 - 1 / 2 ^ 52" by simp
  ultimately have "1 * (2::real) ^ 10 \<le> (2 - 1 / 2 ^ 52) * 2 ^ 1023"
    by (intro mult_mono) simp_all
  then show ?thesis by (simp add: max_float_def)
qed

lemma max_float_pos: "0 < max_float"
  using max_float_large by linarith

lemma fl_small: "\<bar>x\<bar> \<le> 1024 \<Longrightarrow> fl x = Finite x"
  using max_float_large by (auto simp: fl_def)

lemma fl_zero: "fl 0 = Finite 0"
  by (simp add: fl_small)

lemma fl_overflow: "fl (4 * max_float) = PosInf" "fl (2 * max_float) = PosInf"
  using max_float_pos by (simp_all add: fl_def)

lemma fl_ge_zero: "0 \<le> x \<Longrightarrow> np_ge_zero (fl x)"
  by (simp add: fl_def)

lemma np_add_ge_zero: "np_ge_zero a \<Longrightarrow> np_ge_zero b \<Longrightarrow> np_ge_zero (np_add a b)"
  by (cases a; cases b) (simp_all add: fl_ge_zero)

lemma np_multiply_ge_zero: "0 < c \<Longrightarrow> np_ge_zero a \<Longrightarrow> np_ge_zero (np_multiply (Finite c) a)"
  by (cases a) (simp_all add: fl_ge_zero)

lemma np_divide_ge_zero:
  "0 < c \<Longrightarrow> np_ge_zero a \<Longrightarrow> np_ge_zero (np_divide a (Finite c))"
  by (cases a) (simp_all add: fl_ge_zero)

lemma np_sum_ge_zero:
  assumes "\<forall>v\<in>set vs. np_ge_zero v"
  shows "np_ge_zero (np_sum vs)"
proof -
  have "np_ge_zero acc \<Longrightarrow> \<forall>v\<in>set vs. np_ge_zero v \<Longrightarrow> np_ge_zero (foldl np_add acc vs)" for acc
    by (induction vs arbitrary: acc) (simp_all add: np_add_ge_zero)
  with assms show ?thesis by (simp add: np_sum_def)
qed

lemma np_sum_zero:
  assumes "\<forall>v\<in>set vs. v = Finite 0"
  shows "np_sum vs = Finite 0"
proof -
  have "\<forall>v\<in>set vs. v = Finite 0 \<Longrightarrow> foldl np_add (Finite 0) vs = Finite 0"
    by (induction vs) (simp_all add: fl_zero)
  with assms show ?thesis by (simp add: np_sum_def)
qed

lemma simps_terms_ge_zero:
  "0 < dx \<Longrightarrow> \<forall>v\<in>set ys. np_ge_zero v \<Longrightarrow> \<forall>t\<in>set (simps_terms ys dx). np_ge_zero t"
  by (induction ys dx rule: simps_terms.induct)
     (simp_all add: np_add_ge_zero np_multiply_ge_zero)

lemma simps_terms_zero:
  "\<forall>v\<in>set ys. v = Finite 0 \<Longrightarrow> \<forall>t\<in>set (simps_terms ys dx). t = Finite 0"
  by (induction ys dx rule: simps_terms.induct) (simp_all add: fl_zero)

lemma basic_simps_ge_zero:
  "0 < dx \<Longrightarrow> \<forall>v\<in>set ys. np_ge_zero v \<Longrightarrow> np_ge_zero (basic_simps ys dx)"
  unfolding basic_simps_def by (intro np_sum_ge_zero simps_terms_ge_zero)

lemma basic_simps_zero: "\<forall>v\<in>set ys. v = Finite 0 \<Longrightarrow> basic_simps ys dx = Finite 0"
  unfolding basic_simps_def by (intro np_sum_zero simps_terms_zero)

lemma even_length_ends:
  assumes "y \<noteq> []" and "length y mod 2 = 0"
  shows "last y \<in> set y" and "last (butlast y) \<in> set y" and "y ! 1 \<in> set y" and "y ! 0 \<in> set y"
proof -
  from assms have len: "2 \<le> length y" by (cases y) (auto simp: Suc_le_eq)
  show "last y \<in> set y" using assms(1) by simp
  have "butlast y \<noteq> []" using len by (cases y) auto
  then have "last (butlast y) \<in> set (butlast y)" by simp
  then show "last (butlast y) \<in> set y" by (rule in_set_butlastD)
  show "y ! 1 \<in> set y" using len by (intro nth_mem) simp
  show "y ! 0 \<in> set y" using assms(1) by (intro nth_mem) simp
qed

lemma simps_column_ge_zero:
  assumes "0 < dx" and "y \<noteq> []" and "\<forall>v\<in>set y. np_ge_zero v"
  shows "np_ge_zero (simps_column y dx)"
proof (cases "length y mod 2 = 0")
  case True
  from even_length_ends [OF assms(2) True] assms(3)
  have e: "np_ge_zero (last y)" "np_ge_zero (last (butlast y))" "np_ge_zero (y ! 1)"
    "np_ge_zero (y ! 0)" by blast+
  have h: "0 < 0.5 * dx" using assms(1) by simp
  have "\<forall>v\<in>set (butlast y). np_ge_zero v" using assms(3) by (blast dest: in_set_butlastD)
  then have b1: "np_ge_zero (basic_simps (butlast y) dx)" by (rule basic_simps_ge_zero [OF assms(1)])
  have "\<forall>v\<in>set (tl y). np_ge_zero v" using assms(2,3) by (blast dest: list.set_sel(2))
  then have b2: "np_ge_zero (basic_simps (tl y) dx)" by (rule basic_simps_ge_zero [OF assms(1)])
  have z: "np_ge_zero (Finite 0)" by simp
  have two: "(0::real) < 2" by simp
  show ?thesis
    unfolding simps_column_def Let_def if_P [OF True]
    by (intro np_add_ge_zero np_divide_ge_zero [OF two] np_multiply_ge_zero [OF h] e b1 b2 z)
next
  case False
  with basic_simps_ge_zero [OF assms(1,3)] show ?thesis by (simp add: simps_column_def)
qed

lemma simps_column_zero:
  assumes "y \<noteq> []" and "\<forall>v\<in>set y. v = Finite 0"
  shows "simps_column y dx = Finite 0"
proof (cases "length y mod 2 = 0")
  case True
  from even_length_ends [OF assms(1) True] assms(2)
  have e: "last y = Finite 0" "last (butlast y) = Finite 0" "y ! 1 = Finite 0" "y ! 0 = Finite 0"
    by blast+
  have "\<forall>v\<in>set (butlast y). v = Finite 0" using assms(2) by (blast dest: in_set_butlastD)
  then have b1: "basic_simps (butlast y) dx = Finite 0" by (rule basic_simps_zero)
  have "\<forall>v\<in>set (tl y). v = Finite 0" using assms by (blast dest: list.set_sel(2))
  then have b2: "basic_simps (tl y) dx = Finite 0" by (rule basic_simps_zero)
  show ?thesis
    unfolding simps_column_def Let_def if_P [OF True] e b1 b2
    by (simp add: fl_zero)
next
  case False
  with basic_simps_zero [OF assms(2)] show ?thesis by (simp add: simps_column_def)
qed

lemma relative_power_ge_zero:
  assumes "np_ge_zero a" and "np_ge_zero t" and "t \<noteq> Finite 0"
  shows "np_ge_zero (np_divide a t) \<or> (np_divide a t = NaN \<and> t = PosInf)"
  using assms by (cases a; cases t) (simp_all add: fl_ge_zero)

section \<open>Properties of the band powers\<close>

lemma replicate_numeral_unfold: "replicate (numeral k) x = x # replicate (pred_numeral k) x"
  by (simp add: numeral_eq_Suc)

lemma select_rows_subset: "set (select_rows A msk) \<subseteq> set A"
  by (auto simp: select_rows_def dest: set_zip_leftD)

lemma select_rows_nonempty:
  assumes "length A = length fs" and "\<exists>f\<in>set fs. P f"
  shows "select_rows A (map P fs) \<noteq> []"
proof -
  from assms(2) obtain i where i: "i < length fs" "P (fs ! i)"
    by (auto simp: in_set_conv_nth)
  with assms(1) have "(A ! i, P (fs ! i)) \<in> set (zip A (map P fs))"
    by (auto simp: set_zip intro!: exI [of _ i])
  with i(2) have "(A ! i, True) \<in> set (filter snd (zip A (map P fs)))" by simp
  then have "filter snd (zip A (map P fs)) \<noteq> []" by force
  then show ?thesis by (simp add: select_rows_def)
qed

lemma simps_rows:
  assumes "A \<noteq> []" and "\<forall>row\<in>set A. length row = C"
  shows "simps A dx = Inr (map (\<lambda>j. simps_column (column A j) dx) [0..<C])"
proof -
  from assms have "length (hd A) = C" by simp
  with assms(1) show ?thesis by (simp add: simps_def)
qed

lemma abs_power_of_eq:
  assumes "length psd = length freqs" and "\<forall>row\<in>set psd. length row = C"
    and "\<forall>(lb, ub)\<in>set bs. \<exists>f\<in>set freqs. lb \<le> f \<and> f < ub"
  shows "abs_power_of freqs psd dx bs =
     Inr (map (\<lambda>(lb, ub). map (\<lambda>j. simps_column
                 (column (select_rows psd (where_band freqs lb ub)) j) dx) [0..<C]) bs)"
  using assms(3)
proof (induction bs)
  case Nil
  show ?case by simp
next
  case (Cons band bs)
  obtain lb ub where band: "band = (lb, ub)" by (cases band)
  let ?sel = "select_rows psd (where_band freqs lb ub)"
  have m: "mask_rows psd (where_band freqs lb ub) = Inr ?sel"
    using assms(1) by (simp add: mask_rows_def where_band_def)
  have ne: "?sel \<noteq> []"
    unfolding where_band_def
    using Cons.prems band by (intro select_rows_nonempty [OF assms(1)]) auto
  have "\<forall>row\<in>set ?sel. length row = C"
    using assms(2) select_rows_subset [of psd "where_band freqs lb ub"] by blast
  from simps_rows [OF ne this]
  have s: "simps ?sel dx = Inr (map (\<lambda>j. simps_column (column ?sel j) dx) [0..<C])" .
  from Cons.prems have "\<forall>(lb, ub)\<in>set bs. \<exists>f\<in>set freqs. lb \<le> f \<and> f < ub" by simp
  from Cons.IH [OF this] show ?case by (simp add: band m s)
qed

lemma map2_map_same: "map2 f (map g xs) (map h xs) = map (\<lambda>x. f (g x) (h x)) xs"
  by (induction xs) simp_all

lemma concat_rows_nth:
  assumes "b < length bs" and "j < C"
  shows "concat (map (\<lambda>x. map (F x) [0..<C]) bs) ! (b * C + j) = F (bs ! b) j"
  using assms(1)
proof (induction bs arbitrary: b)
  case Nil
  then show ?case by simp
next
  case (Cons x bs)
  show ?case
  proof (cases b)
    case 0
    with assms(2) show ?thesis by (simp add: nth_append)
  next
    case (Suc b')
    with Cons.prems have "b' < length bs" by simp
    from Cons.IH [OF this] Suc show ?thesis by (simp add: nth_append)
  qed
qed

lemma concat_rows_length: "length (concat (map (\<lambda>x. map (F x) [0..<C]) bs)) = length bs * C"
  by (induction bs) simp_all

lemma guard_divide_rows:
  "map (\<lambda>r. map2 np_divide r (map (\<lambda>t. if t = Finite 0 then Finite (- 1) else t) (map T [0..<C])))
     (map (\<lambda>r. map2 (\<lambda>a t. if t = Finite 0 then Finite 0 else a) r (map T [0..<C]))
        (map (\<lambda>x. map (P x) [0..<C]) bs))
   = map (\<lambda>x. map (\<lambda>j. if T j = Finite 0 then Finite 0 else np_divide (P x j) (T j)) [0..<C]) bs"
proof -
  have d: "np_divide (if T j = Finite 0 then Finite 0 else p)
             (if T j = Finite 0 then Finite (- 1) else T j)
         = (if T j = Finite 0 then Finite 0 else np_divide p (T j))" for j p
    by (simp add: fl_zero)
  have "map2 np_divide
          (map2 (\<lambda>a t. if t = Finite 0 then Finite 0 else a) (map (P x) [0..<C]) (map T [0..<C]))
          (map (\<lambda>t. if t = Finite 0 then Finite (- 1) else t) (map T [0..<C]))
         = map (\<lambda>j. if T j = Finite 0 then Finite 0 else np_divide (P x j) (T j)) [0..<C]" for x
  proof -
    have "map2 (\<lambda>a t. if t = Finite 0 then Finite 0 else a) (map (P x) [0..<C]) (map T [0..<C])
        = map (\<lambda>j. if T j = Finite 0 then Finite 0 else P x j) [0..<C]"
      by (rule map2_map_same)
    moreover have "map (\<lambda>t. if t = Finite 0 then Finite (- 1) else t) (map T [0..<C])
        = map (\<lambda>j. if T j = Finite 0 then Finite (- 1) else T j) [0..<C]" by simp
    ultimately show ?thesis by (simp only: map2_map_same d)
  qed
  then show ?thesis by (simp add: comp_def)
qed

lemma compute_band_relpower_eq:
  assumes "welch X = Inr (freqs, psd)" and "2 \<le> length freqs"
    and "length psd = length freqs" and "\<forall>row\<in>set psd. length row = C"
    and "\<forall>(lb, ub)\<in>set bands. \<exists>f\<in>set freqs. lb \<le> f \<and> f < ub"
  shows "compute_band_relpower welch X =
     Inr (concat (map (\<lambda>band. map (\<lambda>j.
        if simps_column (column psd j) (freqs ! 1 - freqs ! 0) = Finite 0 then Finite 0
        else np_divide
               (simps_column (column (select_rows psd (where_band freqs (fst band) (snd band))) j)
                  (freqs ! 1 - freqs ! 0))
               (simps_column (column psd j) (freqs ! 1 - freqs ! 0))) [0..<C]) bands))"
proof -
  define dx where "dx = freqs ! 1 - freqs ! 0"
  let ?T = "\<lambda>j. simps_column (column psd j) dx"
  let ?P = "\<lambda>band j. simps_column (column (select_rows psd (where_band freqs (fst band) (snd band))) j) dx"
  have ne: "psd \<noteq> []" using assms(2,3) by auto
  have t: "simps psd dx = Inr (map ?T [0..<C])" by (rule simps_rows [OF ne assms(4)])
  have a: "abs_power_of freqs psd dx bands = Inr (map (\<lambda>band. map (?P band) [0..<C]) bands)"
    using abs_power_of_eq [OF assms(3,4,5), of dx] by (simp add: case_prod_beta)
  have "\<not> length freqs < 2" using assms(2) by simp
  then have "compute_band_relpower welch X =
      Inr (concat (map (\<lambda>r. map2 np_divide r
                           (map (\<lambda>t. if t = Finite 0 then Finite (- 1) else t) (map ?T [0..<C])))
         (map (\<lambda>r. map2 (\<lambda>a t. if t = Finite 0 then Finite 0 else a) r (map ?T [0..<C]))
            (map (\<lambda>band. map (?P band) [0..<C]) bands))))"
    apply (simp only: compute_band_relpower_def assms(1) sum.case prod.case Let_def if_False)
    apply (simp only: dx_def [symmetric] a t sum.case)
    done
  then show ?thesis
    unfolding guard_divide_rows dx_def .
qed

lemma column_entries:
  assumes "\<forall>row\<in>set A. length row = C" and "j < C" and "v \<in> set (column A j)"
  shows "\<exists>row\<in>set A. v = row ! j \<and> v \<in> set row"
  using assms by (auto simp: column_def)

lemma column_nonempty: "A \<noteq> [] \<Longrightarrow> column A j \<noteq> []"
  by (simp add: column_def)

lemma length_bands: "length bands = 5"
  by (simp add: bands_def)

lemma welch_bands_hit: "\<forall>(lb, ub)\<in>set bands. \<exists>f\<in>set welch_freqs. lb \<le> f \<and> f < ub"
  by (simp add: bands_def welch_freqs_def)

lemma welch_freqs_length: "length welch_freqs = 129"
  by (simp add: welch_freqs_def)

lemma tone_rows: "\<forall>row\<in>set tone_psd. length row = 2"
  by (auto simp: tone_psd_def)

lemma tone_length: "length tone_psd = 129"
  by (simp add: tone_psd_def)

lemma tone_total_power: "simps tone_psd (welch_freqs ! 1 - welch_freqs ! 0) = Inr [Finite (4 / 3), Finite 0]"
  by (simp add: tone_psd_def welch_freqs_def replicate_numeral_unfold simps_def column_def
      simps_column_def basic_simps_def np_sum_def fl_small upt_conv_Cons)

lemma tone_relpower:
  "compute_band_relpower tone_welch X =
     Inr [Finite (9 / 8), Finite 0, Finite 0, Finite 0, Finite 0, Finite 0, Finite 0, Finite 0,
          Finite 0, Finite 0]"
  by (simp add: compute_band_relpower_def tone_welch_def welch_freqs_def tone_psd_def
      replicate_numeral_unfold bands_def where_band_def mask_rows_def select_rows_def
      column_def simps_def simps_column_def basic_simps_def np_sum_def fl_small Let_def)

lemma constant_relpower:
  "compute_band_relpower constant_welch X =
     Inr [Finite (1 / 6), Finite (1 / 6), Finite 0, Finite 0, Finite 0, Finite 0, Finite 0,
          Finite 0, Finite 0, Finite 0]"
  by (simp add: compute_band_relpower_def constant_welch_def welch_freqs_def residual_def
      replicate_numeral_unfold bands_def where_band_def mask_rows_def select_rows_def
      column_def simps_def simps_column_def basic_simps_def np_sum_def fl_small Let_def)

text \<open>
  Overflow is visible in the result: with a density at the largest float the band power
  and the total power are both infinite, and their quotient is NaN. The guard compares
  with zero only.
\<close>

lemma huge_relpower:
  "compute_band_relpower huge_welch X =
     Inr [NaN, Finite 0, NaN, Finite 0, NaN, Finite 0, NaN, Finite 0, NaN, Finite 0]"
  by (simp add: compute_band_relpower_def huge_welch_def welch_freqs_def
      replicate_numeral_unfold bands_def where_band_def mask_rows_def select_rows_def
      column_def simps_def simps_column_def basic_simps_def np_sum_def fl_small fl_overflow
      Let_def)

section \<open>Properties of row selection\<close>

lemma select_rows_all: "length A = length xs \<Longrightarrow> select_rows A (map (\<lambda>x. True) xs) = A"
  by (induction A xs rule: list_induct2) (simp_all add: select_rows_def)

lemma select_rows_hit:
  assumes "length A = length msk" and "True \<in> set msk"
  shows "select_rows A msk \<noteq> []"
proof -
  from assms(2) obtain i where i: "i < length msk" "msk ! i"
    by (auto simp: in_set_conv_nth)
  with assms(1) have "(A ! i, msk ! i) \<in> set (zip A msk)"
    by (auto simp: set_zip intro!: exI [of _ i])
  with i(2) have "(A ! i, True) \<in> set (filter snd (zip A msk))" by simp
  then have "filter snd (zip A msk) \<noteq> []" by force
  then show ?thesis by (simp add: select_rows_def)
qed

lemma is_test_set_hit: "(True \<in> set (is_test_set_of subject_ids t)) = (t \<in> set subject_ids)"
  by (auto simp: is_test_set_of_def)
section \<open>The windows of a recording\<close>

text \<open>
  Claim C1, as the code has it. For a recording of \<open>num_obs = length X\<close> samples, a window
  size \<open>w\<close> that is not negative and a positive stride \<open>s\<close>, the start indices the loop
  visits are exactly \<open>w + k * s\<close> for every \<open>k\<close> with \<open>w + k * s < num_obs\<close> (strictly
  below \<open>num_obs\<close>, as \<open>range\<close> excludes its stop value); the window of start index
  \<open>ix\<close> is the half-open sample range \<open>[ix - w, ix)\<close>, that is \<open>w\<close> samples from sample
  \<open>k * s\<close> on; and the number of windows is \<open>max 0 ((num_obs - w - 1) div s + 1)\<close>.
\<close>

theorem windower_starts:
  assumes "0 \<le> w" and "0 < s"
  shows "py_range w (int (length X)) s =
           Inr (map (\<lambda>k. w + int k * s)
                  [0..<nat (max 0 ((int (length X) - w - 1) div s + 1))])
       \<and> windower X w s =
           Inr (map (\<lambda>k. take (nat w) (drop (k * nat s) X))
                  [0..<nat (max 0 ((int (length X) - w - 1) div s + 1))])
       \<and> (\<forall>k. (k < nat (max 0 ((int (length X) - w - 1) div s + 1)))
               = (w + int k * s < int (length X)))"
proof -
  let ?n = "int (length X)"
  let ?c = "nat (max 0 ((?n - w - 1) div s + 1))"
  have c: "?c = nat ((?n - w - 1) div s + 1)" by simp
  have r: "py_range w ?n s =
             Inr (map (\<lambda>k. w + int k * s) [0..<?c])"
    using assms(2) unfolding c by (simp add: py_range_def range_up_closed_form)
  have iff: "(k < ?c) = (w + int k * s < ?n)" for k
    unfolding c using assms(2) by (rule range_up_count_iff)
  have sl: "py_slice X (w + int k * s - w) (w + int k * s)
          = take (nat w) (drop (k * nat s) X)"
    if "k < ?c" for k
  proof (rule py_slice_kth_window [OF assms])
    show "w + int k * s \<le> ?n" using that iff [of k] by simp
  qed
  have w: "windower X w s =
      Inr (map (\<lambda>k. take (nat w) (drop (k * nat s) X)) [0..<?c])"
    unfolding windower_def r using sl by (simp add: comp_def)
  from r w iff show ?thesis by blast
qed

theorem windower_starts_witness:
  "(0::int) \<le> 2 \<and> (0::int) < 1
   \<and> py_range 2 (int (length [[1, 10], [2, 20], [3, 30], [4, 40 :: real]])) 1 = Inr [2, 3]
   \<and> windower [[1, 10], [2, 20], [3, 30], [4, 40]] 2 1
       = Inr [[[1, 10], [2, 20]], [[2, 20], [3, 30]]]"
  using windower_starts [of 2 1 "[[1, 10], [2, 20], [3, 30], [4, 40]]"]
  by (simp add: upt_conv_Cons)

text \<open>
  The claim as stated fails where a start index equals \<open>num_obs\<close>: a recording of
  exactly 1024 samples, with the notebook's window size 1024 and stride 512, has the
  start index \<open>1024 \<le> num_obs\<close> and the stated count is 1, but the loop visits no window.
\<close>

theorem windower_starts_counterexample:
  "windower (replicate 1024 [0, 0]) window_size stride = Inr []
   \<and> window_size \<le> int (length (replicate 1024 [0::real, 0]))
   \<and> max 0 ((int (length (replicate 1024 [0::real, 0])) - window_size) div stride + 1) = 1"
  by (simp add: windower_def py_range_def range_up.simps window_size_def stride_def
      window_size_seconds_def stride_seconds_def sampling_rate_def)


section \<open>The number of windows of a recording\<close>

text \<open>
  Claim C2, as the code has it. Let the window size \<open>w\<close> be not negative, the stride \<open>s\<close>
  positive, and let the feature computation raise on no window of the recording (on other arrays
  it may raise). Then processing a recording of \<open>num_obs\<close> samples
  returns, and appends the same number of feature vectors, labels and subject identifiers:
  one per window, \<open>max 0 ((num_obs - w - 1) div s + 1)\<close> of them. That number is
  \<open>(num_obs - w) div s\<close> when \<open>w \<le> num_obs\<close> and the stride divides \<open>num_obs - w\<close>.
\<close>

theorem process_node_window_count:
  assumes "0 \<le> w" and "0 < s"
    and "\<forall>k. w + int k * s < int (length (node_data nd))
           \<longrightarrow> (\<exists>f. fv (take (nat w) (drop (k * nat s)
                            (map (\<lambda>(c1, c2, i). [c1, c2]) (node_data nd)))) = Inr f)"
  shows "\<exists>ds'. process_node fv w s nd ds = Inr ds'
     \<and> length (features ds') = length (features ds)
           + nat (max 0 ((int (length (node_data nd)) - w - 1) div s + 1))
     \<and> length (labels ds') = length (labels ds)
           + nat (max 0 ((int (length (node_data nd)) - w - 1) div s + 1))
     \<and> length (subjects ds') = length (subjects ds)
           + nat (max 0 ((int (length (node_data nd)) - w - 1) div s + 1))
     \<and> (w \<le> int (length (node_data nd)) \<and> s dvd (int (length (node_data nd)) - w)
          \<longrightarrow> max 0 ((int (length (node_data nd)) - w - 1) div s + 1)
                = (int (length (node_data nd)) - w) div s)"
proof -
  from process_node_total [OF assms, of ds] obtain ds' where
    "process_node fv w s nd ds = Inr ds'"
    "length (features ds') = length (features ds)
           + nat (max 0 ((int (length (node_data nd)) - w - 1) div s + 1))"
    "labels ds' = labels ds @ map (\<lambda>k. window_label (map (\<lambda>(c1, c2, i). i) (node_data nd)) w (w + int k * s))
           [0..<nat (max 0 ((int (length (node_data nd)) - w - 1) div s + 1))]"
    "subjects ds' = subjects ds
           @ replicate (nat (max 0 ((int (length (node_data nd)) - w - 1) div s + 1)))
               (subject_of (v_name nd))"
    by blast
  moreover have "max 0 ((int (length (node_data nd)) - w - 1) div s + 1)
                = (int (length (node_data nd)) - w) div s"
    if "w \<le> int (length (node_data nd))" "s dvd (int (length (node_data nd)) - w)"
    using count_when_divisible [OF assms(2) that] .
  ultimately show ?thesis by auto
qed

theorem process_node_window_count_witness:
  "(0::int) \<le> 2 \<and> (0::int) < 2
   \<and> (\<lambda>X. if length X = 2 then Inr (map sum_list X) else Inl IndexError) [] = Inl IndexError
   \<and> (2::int) \<le> int (length [(1, 2, 0), (3, 4, 0), (5, 6, 1), (7, 8, 0), (9, 10, 0), (11, 12, 0 :: real)])
   \<and> (2::int) dvd (int (length [(1, 2, 0), (3, 4, 0), (5, 6, 1), (7, 8, 0), (9, 10, 0), (11, 12, 0 :: real)]) - 2)
   \<and> (\<exists>ds'. process_node (\<lambda>X. if length X = 2 then Inr (map sum_list X) else Inl IndexError) 2 2
           \<lparr>v_name = ''chb01_03'',
            node_data = [(1, 2, 0), (3, 4, 0), (5, 6, 1), (7, 8, 0), (9, 10, 0), (11, 12, 0)]\<rparr>
           \<lparr>features = [], labels = [], subjects = []\<rparr> = Inr ds'
         \<and> length (features ds') = 2 \<and> length (labels ds') = 2 \<and> length (subjects ds') = 2)
   \<and> max 0 ((int (length [(1, 2, 0), (3, 4, 0), (5, 6, 1), (7, 8, 0), (9, 10, 0), (11, 12, 0 :: real)]) - 2 - 1) div 2 + 1)
       = (int (length [(1, 2, 0), (3, 4, 0), (5, 6, 1), (7, 8, 0), (9, 10, 0), (11, 12, 0 :: real)]) - 2) div 2"
  using process_node_window_count [where w = 2 and s = 2
      and fv = "\<lambda>X. if length X = 2 then Inr (map sum_list X) else Inl IndexError"
      and nd = "\<lparr>v_name = ''chb01_03'',
        node_data = [(1, 2, 0), (3, 4, 0), (5, 6, 1), (7, 8, 0), (9, 10, 0), (11, 12, 0)]\<rparr>"
      and ds = "\<lparr>features = [], labels = [], subjects = []\<rparr>"]
  by (simp add: numeral_2_eq_2)

text \<open>
  The count \<open>(num_obs - window_size) div stride\<close> fails when the stride does not divide
  \<open>num_obs - window_size\<close>: a recording of 1025 samples has one window, and the stated
  count is 0.
\<close>

theorem window_count_counterexample:
  "windower (replicate 1025 [0, 0]) window_size stride = Inr [replicate 1024 [0, 0]]
   \<and> (int (length (replicate 1025 [0::real, 0])) - window_size) div stride = 0"
  by (simp add: windower_def py_range_def range_up.simps py_slice_def slice_bound_def
      window_size_def stride_def window_size_seconds_def stride_seconds_def sampling_rate_def)

section \<open>Parameters the windower accepts\<close>

text \<open>
  Claim C3, as the code has it. The windower checks none of its parameters and never
  reports \<open>InvalidParameter\<close>: it fails exactly when the stride is zero, with the
  \<open>ValueError\<close> of \<open>range\<close>. For a positive stride it returns the empty sequence of
  windows exactly when \<open>num_obs \<le> window_size\<close>; a window size above \<open>num_obs\<close> is
  not an error.
\<close>

theorem windower_no_validation:
  "(windower X w s = Inl e \<longleftrightarrow> s = 0 \<and> e = ValueError)
   \<and> (0 < s \<longrightarrow> (windower X w s = Inr [] \<longleftrightarrow> int (length X) \<le> w))"
  by (auto simp: windower_def py_range_def range_up_empty_iff)

theorem windower_no_validation_witness:
  "(0::int) < 512 \<and> int (length [[1, 2], [3, 4], [5, 6 :: real]]) \<le> 1024
   \<and> windower [[1, 2], [3, 4], [5, 6]] 1024 512 = Inr []"
  using windower_no_validation [of "[[1, 2], [3, 4], [5, 6]]" 1024 512 ValueError]
  by simp

text \<open>
  A recording of three samples with the notebook's window size 1024 and stride 512: the
  window size exceeds \<open>num_obs\<close>, and the windower returns no window and no error.
\<close>

theorem windower_invalid_parameter_counterexample:
  "int (length [[1, 2], [3, 4], [5, 6 :: real]]) < window_size
   \<and> windower [[1, 2], [3, 4], [5, 6]] window_size stride = Inr []
   \<and> windower [[1, 2], [3, 4], [5, 6]] window_size stride \<noteq> Inl InvalidParameter"
  by (simp add: windower_def py_range_def range_up.simps
      window_size_def stride_def window_size_seconds_def stride_seconds_def sampling_rate_def)

section \<open>Every window is a full window\<close>

text \<open>
  Claim C9. For a window size that is not negative and a positive stride, every start
  index \<open>ix\<close> the loop visits satisfies \<open>w \<le> ix < num_obs\<close>, so the slice
  \<open>[ix - w, ix)\<close> lies inside the recording: the window passed to feature extraction and
  the slice of the indicator passed to label aggregation both hold exactly \<open>w\<close> samples.
\<close>

theorem windows_are_full:
  assumes "0 \<le> w" and "0 < s" and "length y = length X"
  shows "\<exists>ixs. py_range w (int (length X)) s = Inr ixs
     \<and> windower X w s = Inr (map (\<lambda>ix. py_slice X (ix - w) ix) ixs)
     \<and> (\<forall>ix\<in>set ixs. w \<le> ix \<and> ix < int (length X)
           \<and> py_slice X (ix - w) ix = take (nat w) (drop (nat (ix - w)) X)
           \<and> length (py_slice X (ix - w) ix) = nat w
           \<and> length (py_slice y (ix - w) ix) = nat w)"
proof -
  have r: "py_range w (int (length X)) s = Inr (range_up w (int (length X)) s)"
    using assms(2) by (simp add: py_range_def)
  have w: "windower X w s
      = Inr (map (\<lambda>ix. py_slice X (ix - w) ix) (range_up w (int (length X)) s))"
    by (simp add: windower_def r)
  have "w \<le> ix \<and> ix < int (length X)
           \<and> py_slice X (ix - w) ix = take (nat w) (drop (nat (ix - w)) X)
           \<and> length (py_slice X (ix - w) ix) = nat w
           \<and> length (py_slice y (ix - w) ix) = nat w"
    if "ix \<in> set (range_up w (int (length X)) s)" for ix
  proof -
    from range_up_bounds [OF assms(2) that] have b: "w \<le> ix" "ix < int (length X)" by simp_all
    then have le: "ix \<le> int (length X)" "ix \<le> int (length y)" using assms(3) by simp_all
    from py_slice_window [OF assms(1) b(1) le(1)] py_slice_window(2) [OF assms(1) b(1) le(2)] b
    show ?thesis by simp
  qed
  with r w show ?thesis by blast
qed

theorem windows_are_full_witness:
  "(0::int) \<le> 2 \<and> (0::int) < 1 \<and> length [0, 1, 0, 0 :: real] = length [[1, 10], [2, 20], [3, 30], [4, 40 :: real]]
   \<and> py_range 2 (int (length [[1, 10], [2, 20], [3, 30], [4, 40 :: real]])) 1 = Inr [2, 3]
   \<and> length (py_slice [[1, 10], [2, 20], [3, 30], [4, 40 :: real]] (2 - 2) 2) = 2
   \<and> length (py_slice [[1, 10], [2, 20], [3, 30], [4, 40 :: real]] (3 - 2) 3) = 2
   \<and> length (py_slice [0, 1, 0, 0 :: real] (3 - 2) 3) = 2"
  using windows_are_full [of 2 1 "[0, 1, 0, 0]" "[[1, 10], [2, 20], [3, 30], [4, 40]]"]
  by (simp add: py_range_def range_up.simps py_slice_def slice_bound_def)

section \<open>The label of a window\<close>

text \<open>
  Claim C6. The label of a window \<open>[ix - w, ix)\<close> inside the recording is the
  disjunction of its per-sample flags: true when at least one sample of the window is
  flagged, false when none is. It is a total function of the indicator values, computed
  as a fold of \<open>or\<close> over the window.
\<close>

theorem window_label_is_or:
  assumes "0 \<le> w" and "w \<le> ix" and "ix \<le> int (length y)"
  shows "window_label y w ix = (\<exists>t. nat (ix - w) \<le> t \<and> t < nat ix \<and> y ! t \<noteq> 0)
       \<and> window_label y w ix = foldr (\<lambda>v b. v \<noteq> 0 \<or> b) (py_slice y (ix - w) ix) False"
proof -
  have "nat (ix - w) + nat w = nat ix" using assms by linarith
  with window_label_nth [OF assms] show ?thesis
    by (simp add: window_label_def np_any_foldr)
qed

theorem window_label_is_or_witness:
  "(0::int) \<le> 2 \<and> (2::int) \<le> 3 \<and> 3 \<le> int (length [0, 0, 1, 0 :: real])
   \<and> window_label [0, 0, 1, 0] 2 3 = True \<and> window_label [0, 0, 1, 0] 2 2 = False"
  using window_label_is_or [of 2 3 "[0, 0, 1, 0]"] window_label_is_or [of 2 2 "[0, 0, 1, 0]"]
  by (simp add: window_label_def np_any_def py_slice_def slice_bound_def)

text \<open>
  Claim C10. The indicator is the last column of the node's data, and a sample counts as
  flagged when its indicator is any value other than zero. For a window size \<open>w\<close> that
  is not negative, a positive stride \<open>s\<close> and a feature computation that raises on no window
  of the recording (on other arrays it may raise), processing a node
  returns and the labels it appends are Booleans: the label of window \<open>k\<close> is true exactly
  when some sample \<open>t\<close> of \<open>[k * s, k * s + w)\<close> has a nonzero indicator.
\<close>

theorem labels_flag_any_nonzero:
  assumes "0 \<le> w" and "0 < s"
    and "\<forall>k. w + int k * s < int (length (node_data nd))
           \<longrightarrow> (\<exists>f. fv (take (nat w) (drop (k * nat s)
                            (map (\<lambda>(c1, c2, i). [c1, c2]) (node_data nd)))) = Inr f)"
  shows "\<exists>ds'. process_node fv w s nd ds = Inr ds'
     \<and> labels ds' = labels ds
         @ map (\<lambda>k. \<exists>t. k * nat s \<le> t \<and> t < k * nat s + nat w
                       \<and> snd (snd (node_data nd ! t)) \<noteq> 0)
             [0..<nat (max 0 ((int (length (node_data nd)) - w - 1) div s + 1))]"
proof -
  let ?n = "int (length (node_data nd))"
  let ?c = "nat (max 0 ((?n - w - 1) div s + 1))"
  let ?y = "map (\<lambda>(c1, c2, i). i) (node_data nd)"
  have c: "?c = nat ((?n - w - 1) div s + 1)" by simp
  from process_node_total [OF assms, of ds] obtain ds' where
    p: "process_node fv w s nd ds = Inr ds'"
    and l: "labels ds' = labels ds @ map (\<lambda>k. window_label ?y w (w + int k * s)) [0..<?c]"
    by blast
  have "window_label ?y w (w + int k * s)
      = (\<exists>t. k * nat s \<le> t \<and> t < k * nat s + nat w \<and> snd (snd (node_data nd ! t)) \<noteq> 0)"
    if "k < ?c" for k
  proof -
    have lt: "w + int k * s < ?n"
      using that range_up_count_iff [OF assms(2), of k ?n w] unfolding c by simp
    have le: "w + int k * s \<le> int (length ?y)" using lt by simp
    have ge: "w \<le> w + int k * s" using assms(2) by simp
    have st: "nat (w + int k * s - w) = k * nat s"
      using assms(2) by (simp add: nat_mult_distrib)
    have "k * nat s + nat w \<le> length (node_data nd)"
    proof -
      have "int (k * nat s + nat w) = w + int k * s" using assms(1,2) by simp
      with lt show ?thesis by linarith
    qed
    then have nth: "?y ! t = snd (snd (node_data nd ! t))" if "t < k * nat s + nat w" for t
      using that by (simp add: case_prod_beta)
    from window_label_nth [OF assms(1) ge le] show ?thesis
      unfolding st using nth by auto
  qed
  then have "map (\<lambda>k. window_label ?y w (w + int k * s)) [0..<?c]
     = map (\<lambda>k. \<exists>t. k * nat s \<le> t \<and> t < k * nat s + nat w
                       \<and> snd (snd (node_data nd ! t)) \<noteq> 0) [0..<?c]"
    by simp
  with p l show ?thesis by simp
qed

theorem labels_flag_any_nonzero_witness:
  "(0::int) \<le> 2 \<and> (0::int) < 2
   \<and> (\<lambda>X. if length X = 2 then Inr (map sum_list X) else Inl IndexError) [] = Inl IndexError
   \<and> (\<exists>ds'. process_node (\<lambda>X. if length X = 2 then Inr (map sum_list X) else Inl IndexError) 2 2
           \<lparr>v_name = ''chb01_03'', node_data = [(1, 2, 0), (3, 4, 0), (5, 6, 2), (7, 8, 0), (9, 10, 0)]\<rparr>
           \<lparr>features = [], labels = [], subjects = []\<rparr> = Inr ds'
         \<and> labels ds' = [False, True])"
  using labels_flag_any_nonzero [where w = 2 and s = 2
      and fv = "\<lambda>X. if length X = 2 then Inr (map sum_list X) else Inl IndexError"
      and nd = "\<lparr>v_name = ''chb01_03'', node_data = [(1, 2, 0), (3, 4, 0), (5, 6, 2), (7, 8, 0), (9, 10, 0)]\<rparr>"
      and ds = "\<lparr>features = [], labels = [], subjects = []\<rparr>"]
  by (simp add: process_node_def Let_def py_range_def range_up.simps window_label_def
      np_any_def py_slice_def slice_bound_def)

section \<open>The zero-power guard\<close>

text \<open>
  Claim C4, as the code has it. Let Welch's method return at least two frequencies, one
  row of densities per frequency with one entry per channel, and at least one frequency
  in each band. For a channel \<open>j\<close> whose total power is exactly zero (or whose density is
  zero at every frequency) \<open>compute_band_relpower\<close> returns, and the relative power of
  each of the five bands of that channel is the number 0: not NaN, and no division by
  zero takes place for that channel. (A constant-valued signal is not such a channel in
  general.)
\<close>

theorem zero_power_guard:
  assumes "welch X = Inr (freqs, psd)" and "2 \<le> length freqs"
    and "length psd = length freqs" and "\<forall>row\<in>set psd. length row = C"
    and "\<forall>(lb, ub)\<in>set bands. \<exists>f\<in>set freqs. lb \<le> f \<and> f < ub"
    and "j < C"
    and "(\<exists>total_power. simps psd (freqs ! 1 - freqs ! 0) = Inr total_power
            \<and> total_power ! j = Finite 0)
         \<or> (\<forall>row\<in>set psd. row ! j = Finite 0)"
  shows "\<exists>r. compute_band_relpower welch X = Inr r \<and> length r = 5 * C
            \<and> (\<forall>b<5. r ! (b * C + j) = Finite 0)"
proof -
  let ?dx = "freqs ! 1 - freqs ! 0"
  let ?T = "\<lambda>j. simps_column (column psd j) ?dx"
  let ?F = "\<lambda>band j. if ?T j = Finite 0 then Finite 0
        else np_divide
               (simps_column (column (select_rows psd (where_band freqs (fst band) (snd band))) j) ?dx)
               (?T j)"
  let ?r = "concat (map (\<lambda>band. map (?F band) [0..<C]) bands)"
  have ne: "psd \<noteq> []" using assms(2,3) by auto
  have r: "compute_band_relpower welch X = Inr ?r"
    using assms(1-5) by (rule compute_band_relpower_eq [where welch = welch and X = X])
  have t: "simps psd ?dx = Inr (map ?T [0..<C])" by (rule simps_rows [OF ne assms(4)])
  have z: "?T j = Finite 0"
    using assms(7)
  proof
    assume "\<exists>total_power. simps psd ?dx = Inr total_power \<and> total_power ! j = Finite 0"
    with t assms(6) show ?thesis by auto
  next
    assume "\<forall>row\<in>set psd. row ! j = Finite 0"
    then have "\<forall>v\<in>set (column psd j). v = Finite 0" by (auto simp: column_def)
    with column_nonempty [OF ne] show ?thesis by (rule simps_column_zero)
  qed
  have len: "length ?r = 5 * C" by (simp only: concat_rows_length length_bands)
  have zero: "?r ! (b * C + j) = Finite 0" if "b < 5" for b
  proof -
    from that have "b < length bands" by (simp add: length_bands)
    from concat_rows_nth [OF this assms(6), of ?F] z show ?thesis by simp
  qed
  from r len zero show ?thesis by blast
qed

theorem zero_power_guard_witness:
  "tone_welch [] = Inr (welch_freqs, tone_psd) \<and> 2 \<le> length welch_freqs
   \<and> length tone_psd = length welch_freqs \<and> (1::nat) < 2
   \<and> simps tone_psd (welch_freqs ! 1 - welch_freqs ! 0) = Inr [Finite (4 / 3), Finite 0]
   \<and> [Finite (4 / 3), Finite 0] ! 1 = Finite 0
   \<and> (\<exists>r. compute_band_relpower tone_welch [] = Inr r \<and> length r = 5 * 2
         \<and> r ! (0 * 2 + 1) = Finite 0 \<and> r ! (1 * 2 + 1) = Finite 0 \<and> r ! (2 * 2 + 1) = Finite 0
         \<and> r ! (3 * 2 + 1) = Finite 0 \<and> r ! (4 * 2 + 1) = Finite 0)"
proof -
  have w: "tone_welch [] = Inr (welch_freqs, tone_psd)" by (simp add: tone_welch_def)
  have l: "2 \<le> length welch_freqs" "length tone_psd = length welch_freqs"
    by (simp_all add: welch_freqs_length tone_length)
  have j: "(1::nat) < 2" by simp
  have z: "\<exists>total_power. simps tone_psd (welch_freqs ! 1 - welch_freqs ! 0) = Inr total_power
            \<and> total_power ! 1 = Finite 0"
    by (rule exI [of _ "[Finite (4 / 3), Finite 0]"], rule conjI, rule tone_total_power, simp)
  from zero_power_guard [where welch = tone_welch and X = "[]",
      OF w l tone_rows welch_bands_hit j disjI1 [OF z]]
  obtain r where r: "compute_band_relpower tone_welch [] = Inr r" "length r = 5 * 2"
    and "\<forall>b<5. r ! (b * 2 + 1) = Finite 0" by blast
  then have z: "r ! (b * 2 + 1) = Finite 0" if "b < 5" for b using that by blast
  from r z [of 0] z [of 1] z [of 2] z [of 3] z [of 4]
  have "compute_band_relpower tone_welch [] = Inr r \<and> length r = 5 * 2
         \<and> r ! (0 * 2 + 1) = Finite 0 \<and> r ! (1 * 2 + 1) = Finite 0 \<and> r ! (2 * 2 + 1) = Finite 0
         \<and> r ! (3 * 2 + 1) = Finite 0 \<and> r ! (4 * 2 + 1) = Finite 0" by simp
  with w l j tone_total_power show ?thesis by auto
qed

text \<open>
  The claim as stated fails for a constant-valued signal. For the constant 0.1 in both
  channels the total power is not zero: the density of the residual gives the band from
  0.5 to 4 Hz the relative power \<open>(a / 3) / (2 * a) = 1/6\<close> in each channel.
\<close>

theorem zero_power_guard_counterexample:
  "set constant_window = {[1 / 10, 1 / 10]}
   \<and> compute_band_relpower constant_welch constant_window =
       Inr [Finite (1 / 6), Finite (1 / 6), Finite 0, Finite 0, Finite 0, Finite 0, Finite 0,
            Finite 0, Finite 0, Finite 0]
   \<and> Finite (1 / 6) \<noteq> Finite 0"
  by (simp add: constant_relpower constant_window_def)

section \<open>The sum of the band relative powers\<close>

text \<open>
  Claim C5, as the code has it. Under the same conditions on Welch's result, with
  frequencies in ascending order and densities that are not negative: each of the five
  band relative powers of a channel is at least 0 (a number or the positive infinity),
  unless the total power of the channel has overflowed to infinity, in which case it may
  be NaN. When the total power has not overflowed the sum of the five is at least 0 as
  well. (The sum is not bounded by 1.)
\<close>

theorem relpower_sum_nonneg:
  assumes "welch X = Inr (freqs, psd)" and "2 \<le> length freqs"
    and "length psd = length freqs" and "\<forall>row\<in>set psd. length row = C"
    and "\<forall>(lb, ub)\<in>set bands. \<exists>f\<in>set freqs. lb \<le> f \<and> f < ub"
    and "j < C"
    and "freqs ! 0 < freqs ! 1" and "\<forall>row\<in>set psd. \<forall>v\<in>set row. np_ge_zero v"
    and "simps psd (freqs ! 1 - freqs ! 0) = Inr total_power"
  shows "\<exists>r. compute_band_relpower welch X = Inr r
            \<and> (\<forall>b<5. np_ge_zero (r ! (b * C + j))
                      \<or> (r ! (b * C + j) = NaN \<and> total_power ! j = PosInf))
            \<and> (total_power ! j \<noteq> PosInf \<longrightarrow> np_ge_zero (channel_sum r C j))"
proof -
  let ?dx = "freqs ! 1 - freqs ! 0"
  let ?T = "\<lambda>j. simps_column (column psd j) ?dx"
  let ?P = "\<lambda>band j. simps_column (column (select_rows psd (where_band freqs (fst band) (snd band))) j) ?dx"
  let ?F = "\<lambda>band j. if ?T j = Finite 0 then Finite 0 else np_divide (?P band j) (?T j)"
  let ?r = "concat (map (\<lambda>band. map (?F band) [0..<C]) bands)"
  have dx: "0 < ?dx" using assms(7) by simp
  have ne: "psd \<noteq> []" using assms(2,3) by auto
  have r: "compute_band_relpower welch X = Inr ?r"
    using assms(1-5) by (rule compute_band_relpower_eq [where welch = welch and X = X])
  have "simps psd ?dx = Inr (map ?T [0..<C])" by (rule simps_rows [OF ne assms(4)])
  with assms(9,6) have tp: "total_power ! j = ?T j" by auto
  have col: "\<forall>v\<in>set (column A j). np_ge_zero v" if "set A \<subseteq> set psd" for A
  proof
    fix v assume v: "v \<in> set (column A j)"
    have "\<forall>row\<in>set A. length row = C" using that assms(4) by blast
    from column_entries [OF this assms(6) v]
    obtain row where "row \<in> set A" "v \<in> set row" by blast
    with that assms(8) show "np_ge_zero v" by blast
  qed
  have T: "np_ge_zero (?T j)"
    using column_nonempty [OF ne] col [of psd] by (intro simps_column_ge_zero [OF dx]) simp_all
  have P: "np_ge_zero (?P band j)" if "band \<in> set bands" for band
  proof -
    obtain lb ub where b: "band = (lb, ub)" by (cases band)
    have "select_rows psd (where_band freqs lb ub) \<noteq> []"
      unfolding where_band_def using assms(5) that b
      by (intro select_rows_nonempty [OF assms(3)]) auto
    then have "column (select_rows psd (where_band freqs lb ub)) j \<noteq> []"
      by (rule column_nonempty)
    with col [OF select_rows_subset] show ?thesis
      unfolding b by (intro simps_column_ge_zero [OF dx]) simp_all
  qed
  have F: "np_ge_zero (?F band j) \<or> (?F band j = NaN \<and> ?T j = PosInf)"
    if "band \<in> set bands" for band
  proof (cases "?T j = Finite 0")
    case True
    then show ?thesis by simp
  next
    case False
    from relative_power_ge_zero [OF P [OF that] T False] False show ?thesis by simp
  qed
  have entry: "np_ge_zero (?r ! (b * C + j)) \<or> (?r ! (b * C + j) = NaN \<and> total_power ! j = PosInf)"
    if "b < 5" for b
  proof -
    from that have lt: "b < length bands" by (simp add: length_bands)
    then have "bands ! b \<in> set bands" by simp
    from F [OF this] concat_rows_nth [OF lt assms(6), of ?F] tp show ?thesis by simp
  qed
  have sum: "np_ge_zero (channel_sum ?r C j)" if fin: "total_power ! j \<noteq> PosInf"
  proof -
    have "np_ge_zero (?r ! (b * C + j))" if "b \<in> set [0..<length bands]" for b
    proof -
      from that have "b < 5" by (simp add: length_bands)
      from entry [OF this] fin show ?thesis by blast
    qed
    then show ?thesis
      unfolding channel_sum_def by (intro np_sum_ge_zero) auto
  qed
  have e: "\<forall>b<5. np_ge_zero (?r ! (b * C + j))
                \<or> (?r ! (b * C + j) = NaN \<and> total_power ! j = PosInf)"
    using entry by (intro allI impI)
  have s: "total_power ! j \<noteq> PosInf \<longrightarrow> np_ge_zero (channel_sum ?r C j)"
    using sum by (intro impI)
  show ?thesis
    by (rule exI [of _ ?r], intro conjI, rule r, rule e, rule s)
qed

theorem relpower_sum_nonneg_witness:
  "tone_welch [] = Inr (welch_freqs, tone_psd) \<and> welch_freqs ! 0 < welch_freqs ! 1 \<and> (0::nat) < 2
   \<and> list_all (\<lambda>row. list_all np_ge_zero row) tone_psd
   \<and> simps tone_psd (welch_freqs ! 1 - welch_freqs ! 0) = Inr [Finite (4 / 3), Finite 0]
   \<and> [Finite (4 / 3), Finite 0] ! 0 \<noteq> PosInf
   \<and> (\<exists>r. compute_band_relpower tone_welch [] = Inr r \<and> np_ge_zero (r ! (0 * 2 + 0))
         \<and> np_ge_zero (channel_sum r 2 0))"
proof -
  have pos: "\<forall>row\<in>set tone_psd. \<forall>v\<in>set row. np_ge_zero v" by (auto simp: tone_psd_def)
  have w: "tone_welch [] = Inr (welch_freqs, tone_psd)" by (simp add: tone_welch_def)
  have l: "2 \<le> length welch_freqs" "length tone_psd = length welch_freqs"
    by (simp_all add: welch_freqs_length tone_length)
  have j: "(0::nat) < 2" by simp
  have a: "welch_freqs ! 0 < welch_freqs ! 1" by (simp add: welch_freqs_def)
  have f: "[Finite (4 / 3), Finite 0] ! 0 \<noteq> PosInf" by simp
  from relpower_sum_nonneg [where welch = tone_welch and X = "[]",
      OF w l tone_rows welch_bands_hit j a pos tone_total_power]
  obtain r where r: "compute_band_relpower tone_welch [] = Inr r"
    and e: "\<forall>b<5. np_ge_zero (r ! (b * 2 + 0))
                \<or> (r ! (b * 2 + 0) = NaN \<and> [Finite (4 / 3), Finite 0] ! 0 = PosInf)"
    and s: "[Finite (4 / 3), Finite 0] ! 0 \<noteq> PosInf \<longrightarrow> np_ge_zero (channel_sum r 2 0)"
    by blast
  have "(0::nat) < 5" by simp
  with e have "np_ge_zero (r ! (0 * 2 + 0))
                \<or> (r ! (0 * 2 + 0) = NaN \<and> [Finite (4 / 3), Finite 0] ! 0 = PosInf)" by blast
  with f have "np_ge_zero (r ! (0 * 2 + 0))" by blast
  with r s f have ex: "\<exists>r. compute_band_relpower tone_welch [] = Inr r \<and> np_ge_zero (r ! (0 * 2 + 0))
         \<and> np_ge_zero (channel_sum r 2 0)" by blast
  have la: "list_all (\<lambda>row. list_all np_ge_zero row) tone_psd"
    using pos by (simp only: list_all_iff)
  from w a j la tone_total_power f ex show ?thesis by blast
qed

text \<open>
  The sum can exceed 1. Simpson's rule weighs the samples of a band by their position in
  the band, and the samples of the whole spectrum by their position in the spectrum: the
  sample at 2 Hz has weight \<open>4/3\<close> in the band from 0.5 to 4 Hz and weight \<open>2/3\<close> in
  the total. For the density of a tone at 2 Hz the first band alone has relative power
  \<open>9/8\<close>.
\<close>

theorem relpower_sum_counterexample:
  "compute_band_relpower tone_welch [] =
     Inr [Finite (9 / 8), Finite 0, Finite 0, Finite 0, Finite 0, Finite 0, Finite 0, Finite 0,
          Finite 0, Finite 0]
   \<and> channel_sum [Finite (9 / 8), Finite 0, Finite 0, Finite 0, Finite 0, Finite 0, Finite 0,
        Finite 0, Finite 0, Finite 0] 2 0 = Finite (9 / 8)
   \<and> \<not> (9 / 8 \<le> (1::real))"
  by (simp add: tone_relpower channel_sum_def np_sum_def length_bands upt_conv_Cons fl_small)

section \<open>A held-out subject that matches no row\<close>

text \<open>
  Claim C7. For a data set whose features, labels and subjects have one entry per row:
  the split fails with \<open>UnknownSubject\<close> exactly when the test subject matches no row,
  and a split that returns has a test set that is not empty.
\<close>

theorem split_unknown_subject:
  assumes "length X = length subject_ids" and "length y = length subject_ids"
  shows "(test_subject_id \<notin> set subject_ids
            \<longrightarrow> train_test_split X y subject_ids test_subject_id = Inl UnknownSubject)
       \<and> (train_test_split X y subject_ids test_subject_id = Inl UnknownSubject
            \<longrightarrow> test_subject_id \<notin> set subject_ids)
       \<and> (\<forall>X_train y_train X_test y_test.
             train_test_split X y subject_ids test_subject_id
               = Inr (X_train, y_train, X_test, y_test)
             \<longrightarrow> X_test \<noteq> [] \<and> y_test \<noteq> [])"
proof -
  let ?m = "is_test_set_of subject_ids test_subject_id"
  have len: "length ?m = length X" "length ?m = length y"
    using assms by (simp_all add: is_test_set_of_def)
  show ?thesis
  proof (cases "test_subject_id \<in> set subject_ids")
    case False
    then have "True \<notin> set ?m" by (simp add: is_test_set_hit)
    with len False show ?thesis
      by (simp add: train_test_split_def Let_def mask_rows_def test_rows_def)
  next
    case True
    then have hit: "True \<in> set ?m" by (simp add: is_test_set_hit)
    from select_rows_hit [OF len(1) [symmetric] hit] select_rows_hit [OF len(2) [symmetric] hit]
    have "select_rows X ?m \<noteq> []" "select_rows y ?m \<noteq> []" .
    with len hit True show ?thesis
      by (auto simp: train_test_split_def Let_def mask_rows_def test_rows_def)
  qed
qed

theorem split_unknown_subject_witness:
  "length [[1, 2], [3, 4 :: real]] = length [''chb02'', ''chb03'']
   \<and> length [False, True] = length [''chb02'', ''chb03'']
   \<and> test_subject \<notin> set [''chb02'', ''chb03'']
   \<and> train_test_split [[1, 2], [3, 4]] [False, True] [''chb02'', ''chb03''] test_subject
       = Inl UnknownSubject
   \<and> train_test_split [[1, 2], [3, 4]] [False, True] [''chb02'', ''chb01''] test_subject
       = Inr ([[1, 2]], [False], [[3, 4]], [True])"
  using split_unknown_subject [of "[[1, 2], [3, 4]]" "[''chb02'', ''chb03'']" "[False, True]" test_subject]
    split_unknown_subject [of "[[1, 2], [3, 4]]" "[''chb02'', ''chb01'']" "[False, True]" test_subject]
  by (simp add: test_subject_def train_test_split_def is_test_set_of_def mask_rows_def
      test_rows_def select_rows_def)
section \<open>Standardisation with the training statistics\<close>

text \<open>
  Claim C8. For a training array and a test array with at least one row and the same
  positive number of features, the cell returns; the scaler holds the per-feature mean
  and scale of the training array, and both the training array and the test array are
  transformed with these statistics. The statistics are functions of the training array
  alone: the test array takes no part in them.
\<close>

theorem standardize_uses_training_statistics:
  assumes "X_train \<noteq> []" and "hd X_train \<noteq> []"
    and "X_test \<noteq> []" and "length (hd X_test) = length (hd X_train)"
  shows "standardize X_train X_test =
     Inr (\<lparr>fitted_mean = Some (column_means X_train), fitted_scale = Some (column_scales X_train)\<rparr>,
          scale_rows (column_means X_train) (column_scales X_train) X_train,
          scale_rows (column_means X_train) (column_scales X_train) X_test)"
proof -
  from assms(2,4) have "hd X_test \<noteq> []" by auto
  with assms show ?thesis
    by (simp add: standardize_def fit_transform_def fit_def transform_def StandardScaler_def
        column_means_def)
qed

theorem standardize_uses_training_statistics_witness:
  "[[1, 10], [3, 10 :: real]] \<noteq> [] \<and> hd [[1, 10], [3, 10 :: real]] \<noteq> [] \<and> [[5, 12 :: real]] \<noteq> []
   \<and> length (hd [[5, 12 :: real]]) = length (hd [[1, 10], [3, 10 :: real]])
   \<and> standardize [[1, 10], [3, 10]] [[5, 12]] =
     Inr (\<lparr>fitted_mean = Some [2, 10], fitted_scale = Some [1, 1]\<rparr>,
          [[- 1, 0], [1, 0]], [[3, 2]])"
  using standardize_uses_training_statistics [of "[[1, 10], [3, 10]]" "[[5, 12]]"]
  by (simp add: column_means_def column_scales_def column_mean_def column_std_def column_def
      handle_zeros_in_scale_def scale_rows_def upt_conv_Cons power2_eq_square)
end
